theory Spec2Isabelle
  imports Main
begin

section \<open>Key mappings: an embedding of common/content/mappings.js\<close>

text \<open>
  The file defines the class \<open>Map\<close> (one key mapping) and the singleton \<open>Mappings\<close>,
  which keeps two mode-indexed arrays of \<open>Map\<close> objects: \<open>main\<close> (default mappings)
  and \<open>user\<close> (user mappings). A \<open>Map\<close> registered for several modes is one object
  referenced from several arrays, and \<open>removeMap\<close> mutates its \<open>names\<close> array in
  place. The model therefore keeps an explicit store: objects live in \<open>heap\<close>, the
  arrays hold addresses (indices into \<open>heap\<close>).

  Modes are numbers (\<open>nat\<close>), key names are strings (lists of 8-bit characters).
  Three things the file uses are defined elsewhere in the repository and are
  parameters here: \<open>events.canonicalKeys\<close> (a function on strings),
  \<open>modes.NORMAL\<close> (a number) and the behaviour of an action when it is called.
\<close>

subsection \<open>Values, errors\<close>

datatype jsval = Undefined | Null | Bool bool | Num int | Str string

text \<open>
  \<open>TypeError\<close> is what SpiderMonkey throws when a property of \<open>undefined\<close> is read.
  \<open>ConfigurationError\<close> is the error the specification names; no statement of the
  source file throws it.
\<close>

datatype error = TypeError | ConfigurationError

subsection \<open>The class Map\<close>

record extraInfo =
  arg :: bool
  count :: bool
  motion :: bool
  route :: bool
  noremap :: bool
  rhs :: "string option"
  silent :: bool
  user :: bool

text \<open>The empty hash \<open>{}\<close>: every property is \<open>undefined\<close>.\<close>

definition no_extra :: extraInfo where
  "no_extra = \<lparr> arg = False, count = False, motion = False, route = False,
     noremap = False, rhs = None, silent = False, user = False \<rparr>"

record 'act MapObj =
  modes :: "nat list"
  names :: "string list"
  action :: 'act
  description :: string
  arg :: bool
  count :: bool
  motion :: bool
  route :: bool
  noremap :: bool
  silent :: bool
  rhs :: "string option"
  user :: bool

text \<open>
  \<open>function Map(modes, keys, description, action, extraInfo)\<close>. The argument
  \<open>extraInfo\<close> is optional (\<open>None\<close>: not given). \<open>extraInfo.rhs || null\<close> turns the
  empty string into \<open>null\<close>; \<open>description || ""\<close> is the description itself.
\<close>

definition Map_new ::
  "(string \<Rightarrow> string) \<Rightarrow> nat list \<Rightarrow> string list \<Rightarrow> string \<Rightarrow> 'act \<Rightarrow> extraInfo option
     \<Rightarrow> 'act MapObj" where
  "Map_new canonicalKeys ms keys descr act extra =
     (let e = (case extra of None \<Rightarrow> no_extra | Some x \<Rightarrow> x) in
      \<lparr> modes = ms,
        names = map canonicalKeys keys,
        action = act,
        description = descr,
        arg = extraInfo.arg e,
        count = extraInfo.count e,
        motion = extraInfo.motion e,
        route = extraInfo.route e,
        noremap = extraInfo.noremap e,
        silent = extraInfo.silent e,
        rhs = (if extraInfo.rhs e = Some [] then None else extraInfo.rhs e),
        user = extraInfo.user e \<rparr>)"

text \<open>\<open>names[0]\<close>: \<open>undefined\<close> (\<open>None\<close>) when the array is empty.\<close>

definition names0 :: "'act MapObj \<Rightarrow> string option" where
  "names0 m = (case names m of [] \<Rightarrow> None | n # _ \<Rightarrow> Some n)"

subsection \<open>The state of Mappings\<close>

text \<open>
  The closure \<open>function () self.action.apply(self, args)\<close> stored in
  \<open>mappings.repeat\<close>: it captures the object \<open>self\<close> (an address) and the array
  \<open>args\<close>.
\<close>

datatype closure = Closure nat "jsval list"

type_synonym table = "nat \<Rightarrow> nat list option"

record 'act state =
  heap :: "'act MapObj list"
  main :: table
  user :: table
  repeat :: "closure option"
  mapleader :: "string option"

text \<open>
  Reading an object through its address. The arrays only ever hold addresses of
  allocated objects; for any other address the accessors below answer with no
  names and no rhs.
\<close>

definition obj :: "'act MapObj list \<Rightarrow> nat \<Rightarrow> 'act MapObj option" where
  "obj h a = (if a < length h then Some (h ! a) else None)"

definition names_of :: "'act MapObj list \<Rightarrow> nat \<Rightarrow> string list" where
  "names_of h a = (case obj h a of None \<Rightarrow> [] | Some m \<Rightarrow> names m)"



text \<open>\<open>hasName: function (name) this.names.indexOf(name) >= 0\<close>\<close>

definition hasName :: "'act MapObj list \<Rightarrow> nat \<Rightarrow> string \<Rightarrow> bool" where
  "hasName h a name = (name \<in> set (names_of h a))"

text \<open>
  \<open>Mappings()\<close>: both arrays get an empty array for every mode that \<open>modes\<close>
  enumerates (the list \<open>known\<close>); no mapping exists, \<open>mappings.repeat\<close> is unset.
\<close>

definition init :: "nat list \<Rightarrow> string option \<Rightarrow> 'act state" where
  "init known leader =
     \<lparr> heap = [],
       main = (\<lambda>mode. if mode \<in> set known then Some [] else None),
       user = (\<lambda>mode. if mode \<in> set known then Some [] else None),
       repeat = None,
       mapleader = leader \<rparr>"

text \<open>\<open>new Map(...)\<close> allocates: the new object gets the next free address.\<close>

definition alloc :: "'act MapObj \<Rightarrow> 'act state \<Rightarrow> nat \<times> 'act state" where
  "alloc m s = (length (heap s), s\<lparr>heap := heap s @ [m]\<rparr>)"

text \<open>
  \<open>addMap(map)\<close>: for each mode of the mapping, in order, create the mode's array
  if it is missing and push the object.
\<close>

definition push_mode :: "nat \<Rightarrow> table \<Rightarrow> nat \<Rightarrow> table" where
  "push_mode a wh mode = wh(mode \<mapsto> (case wh mode of None \<Rightarrow> [] | Some l \<Rightarrow> l) @ [a])"

definition addMap :: "nat \<Rightarrow> 'act state \<Rightarrow> 'act state" where
  "addMap a s =
     (case obj (heap s) a of
        None \<Rightarrow> s
      | Some m \<Rightarrow>
          if MapObj.user m then s\<lparr>user := foldl (push_mode a) (user s) (modes m)\<rparr>
          else s\<lparr>main := foldl (push_mode a) (main s) (modes m)\<rparr>)"

text \<open>
  \<open>getMap(mode, cmd, stack)\<close>: the first object of \<open>stack[mode] || []\<close> that has the
  name, else \<open>null\<close>.
\<close>

fun getMap_loop :: "'act MapObj list \<Rightarrow> string \<Rightarrow> nat list \<Rightarrow> nat option" where
  "getMap_loop h cmd [] = None"
| "getMap_loop h cmd (a # as) = (if hasName h a cmd then Some a else getMap_loop h cmd as)"

definition getMap :: "'act MapObj list \<Rightarrow> nat \<Rightarrow> string \<Rightarrow> table \<Rightarrow> nat option" where
  "getMap h mode cmd stack =
     getMap_loop h cmd (case stack mode of None \<Rightarrow> [] | Some maps \<Rightarrow> maps)"

text \<open>
  \<open>removeMap(mode, cmd)\<close>: walk \<open>user[mode] || []\<close>; at the first object one of whose
  names equals \<open>cmd\<close>, splice the first such name out of the object's \<open>names\<close> array
  (in place, so every array holding the object sees it), drop the object from this
  mode's array if no name is left, and return.
\<close>

fun removeMap_loop ::
  "'act MapObj list \<Rightarrow> string \<Rightarrow> nat list \<Rightarrow> 'act MapObj list \<times> nat list" where
  "removeMap_loop h cmd [] = (h, [])"
| "removeMap_loop h cmd (a # as) =
     (if cmd \<in> set (names_of h a) then
        (let ns = remove1 cmd (names_of h a);
             h' = h[a := (h ! a)\<lparr>names := ns\<rparr>]
         in (h', if ns = [] then as else a # as))
      else (let (h', as') = removeMap_loop h cmd as in (h', a # as')))"

definition removeMap :: "nat \<Rightarrow> string \<Rightarrow> 'act state \<Rightarrow> 'act state" where
  "removeMap mode cmd s =
     (case user s mode of
        None \<Rightarrow> s
      | Some maps \<Rightarrow>
          (let (h', maps') = removeMap_loop (heap s) cmd maps
           in s\<lparr>heap := h', user := (user s)(mode \<mapsto> maps')\<rparr>))"

subsection \<open>The leader token\<close>

text \<open>
  \<open>getMapLeader\<close>: the value of the variable \<open>mapleader\<close> when it is set
  (\<open>liberator.variableReference\<close> finds it), else a backslash.
\<close>

definition getMapLeader :: "'act state \<Rightarrow> string" where
  "getMapLeader s = (case mapleader s of None \<Rightarrow> [CHR 0x5C] | Some l \<Rightarrow> l)"

text \<open>
  The regular expression \<open>/<Leader>/i\<close> as a sequence of character classes, and
  its match at the start of a string.
\<close>

definition leader_pattern :: "string list" where
  "leader_pattern = [''<'', ''Ll'', ''Ee'', ''Aa'', ''Dd'', ''Ee'', ''Rr'', ''>'']"

fun match_here :: "string list \<Rightarrow> string \<Rightarrow> bool" where
  "match_here [] s = True"
| "match_here (cls # p) [] = False"
| "match_here (cls # p) (c # s) = (c \<in> set cls \<and> match_here p s)"

text \<open>
  The leftmost match: the text before it, the matched text and the text after it.
\<close>

fun find_match :: "string list \<Rightarrow> string \<Rightarrow> string \<Rightarrow> (string \<times> string \<times> string) option" where
  "find_match p left [] = None"
| "find_match p left (c # s) =
     (if match_here p (c # s)
      then Some (left, take (length p) (c # s), drop (length p) (c # s))
      else find_match p (left @ [c]) s)"

text \<open>
  \<open>String.prototype.replace\<close> with a string as second argument expands the dollar
  patterns of that string: \<open>$$\<close> is a dollar sign, \<open>$&\<close> the matched text,
  \<open>$`\<close> the text before the match, \<open>$'\<close> the text after it, and (SpiderMonkey)
  \<open>$+\<close> the last parenthesised group, which is empty for a pattern without
  groups. \<open>$1\<close> to \<open>$99\<close> stay as they are, the pattern having no group.
\<close>

fun interpret_dollar :: "string \<Rightarrow> string \<Rightarrow> string \<Rightarrow> string \<Rightarrow> string" where
  "interpret_dollar l m r [] = []"
| "interpret_dollar l m r [c] = [c]"
| "interpret_dollar l m r (c # d # t) =
     (if c = CHR ''$'' \<and> d = CHR ''$'' then CHR ''$'' # interpret_dollar l m r t
      else if c = CHR ''$'' \<and> d = CHR ''&'' then m @ interpret_dollar l m r t
      else if c = CHR ''$'' \<and> d = CHR 0x60 then l @ interpret_dollar l m r t
      else if c = CHR ''$'' \<and> d = CHR 0x27 then r @ interpret_dollar l m r t
      else if c = CHR ''$'' \<and> d = CHR ''+'' then interpret_dollar l m r t
      else c # interpret_dollar l m r (d # t))"

text \<open>
  \<open>keyString.replace(/<Leader>/i, replacement)\<close>: the pattern has no \<open>g\<close> flag, so
  only the leftmost match is replaced.
\<close>

definition replace_leader :: "string \<Rightarrow> string \<Rightarrow> string" where
  "replace_leader keyString replacement =
     (case find_match leader_pattern [] keyString of
        None \<Rightarrow> keyString
      | Some (l, m, r) \<Rightarrow> l @ interpret_dollar l m r replacement @ r)"

text \<open>
  \<open>function expandLeader(keyString) keyString.replace(/<Leader>/i, mappings.getMapLeader())\<close>
\<close>

definition expandLeader :: "'act state \<Rightarrow> string \<Rightarrow> string" where
  "expandLeader s keyString = replace_leader keyString (getMapLeader s)"

subsection \<open>The iterator over the mappings present in all modes\<close>






subsection \<open>The public interface of Mappings\<close>

definition addMode :: "nat \<Rightarrow> 'act state \<Rightarrow> 'act state" where
  "addMode mode s =
     (if user s mode = None \<and> main s mode = None
      then s\<lparr>main := (main s)(mode \<mapsto> []), user := (user s)(mode \<mapsto> [])\<rparr>
      else s)"

text \<open>
  \<open>add(modes, keys, description, action, extra)\<close> is
  \<open>addMap(new Map(modes, keys, description, action, extra))\<close>. The result is
  \<open>Inr\<close> of the new state when the call returns and \<open>Inl\<close> of the error when it
  throws; no statement on this path throws.
\<close>

definition add ::
  "(string \<Rightarrow> string) \<Rightarrow> nat list \<Rightarrow> string list \<Rightarrow> string \<Rightarrow> 'act \<Rightarrow> extraInfo option
     \<Rightarrow> 'act state \<Rightarrow> error + 'act state" where
  "add canonicalKeys ms keys descr act extra s =
     (let (a, s1) = alloc (Map_new canonicalKeys ms keys descr act extra) s
      in Inr (addMap a s1))"

text \<open>
  \<open>addUserMap\<close>: expand the leader in the keys, force \<open>extra.user = true\<close>, build
  the object, call \<open>removeMap(mode, name)\<close> for every name of the new object (outer
  loop) and every one of its modes (inner loop), then \<open>addMap\<close>.
\<close>

definition remove_old :: "nat list \<Rightarrow> string list \<Rightarrow> 'act state \<Rightarrow> 'act state" where
  "remove_old ms ns s =
     foldl (\<lambda>s name. foldl (\<lambda>s mode. removeMap mode name s) s ms) s ns"

definition addUserMap ::
  "(string \<Rightarrow> string) \<Rightarrow> nat list \<Rightarrow> string list \<Rightarrow> string \<Rightarrow> 'act \<Rightarrow> extraInfo option
     \<Rightarrow> 'act state \<Rightarrow> error + 'act state" where
  "addUserMap canonicalKeys ms keys descr act extra s =
     (let keys' = map (expandLeader s) keys;
          e = (case extra of None \<Rightarrow> no_extra | Some x \<Rightarrow> x)\<lparr>extraInfo.user := True\<rparr>;
          m = Map_new canonicalKeys ms keys'
                (if descr = [] then ''User defined mapping'' else descr) act (Some e);
          (a, s1) = alloc m s;
          s2 = remove_old (modes m) (names m) s1
      in Inr (addMap a s2))"

text \<open>
  \<open>get(mode, cmd)\<close>: \<open>mode = mode || modes.NORMAL\<close> replaces a falsy mode (the
  number 0) by \<open>modes.NORMAL\<close>; then the user array is searched before the default
  one. \<open>None\<close> is \<open>null\<close>.
\<close>

definition get :: "nat \<Rightarrow> nat \<Rightarrow> string \<Rightarrow> 'act state \<Rightarrow> nat option" where
  "get NORMAL mode cmd s =
     (let mode = (if mode = 0 then NORMAL else mode) in
      case getMap (heap s) mode cmd (user s) of
        Some a \<Rightarrow> Some a
      | None \<Rightarrow> getMap (heap s) mode cmd (main s))"

definition getDefault :: "nat \<Rightarrow> nat \<Rightarrow> string \<Rightarrow> 'act state \<Rightarrow> nat option" where
  "getDefault NORMAL mode cmd s =
     (let mode = (if mode = 0 then NORMAL else mode) in getMap (heap s) mode cmd (main s))"

text \<open>
  \<open>getCandidates(mode, prefix)\<close>. \<open>name.indexOf(prefix) == 0\<close> says that the name
  starts with the prefix; \<open>/^<.+>/.test(name)\<close> that the name starts with \<open><\<close>,
  then at least one character that is no line terminator, then \<open>>\<close> somewhere
  before the next line terminator.
\<close>

fun starts_with :: "string \<Rightarrow> string \<Rightarrow> bool" where
  "starts_with name [] = True"
| "starts_with [] (p # ps) = False"
| "starts_with (c # cs) (p # ps) = (c = p \<and> starts_with cs ps)"

definition line_terminator :: "char \<Rightarrow> bool" where
  "line_terminator c = (c = CHR 0x0A \<or> c = CHR 0x0D)"

fun dot_plus_gt :: "bool \<Rightarrow> string \<Rightarrow> bool" where
  "dot_plus_gt seen [] = False"
| "dot_plus_gt seen (c # cs) =
     ((seen \<and> c = CHR ''>'') \<or> (\<not> line_terminator c \<and> dot_plus_gt True cs))"

definition looks_bracketed :: "string \<Rightarrow> bool" where
  "looks_bracketed name =
     (case name of [] \<Rightarrow> False | c # cs \<Rightarrow> c = CHR ''<'' \<and> dot_plus_gt False cs)"

definition is_candidate :: "string \<Rightarrow> string \<Rightarrow> bool" where
  "is_candidate prefix name =
     (starts_with name prefix \<and> length name > length prefix
      \<and> (prefix \<noteq> ''<'' \<or> \<not> looks_bracketed name))"

text \<open>The inner loop pushes the object once for each of its names that qualifies.\<close>

fun candidate_names :: "string \<Rightarrow> nat \<Rightarrow> string list \<Rightarrow> nat list" where
  "candidate_names prefix a [] = []"
| "candidate_names prefix a (name # ns) =
     (if is_candidate prefix name then a # candidate_names prefix a ns
      else candidate_names prefix a ns)"

fun candidate_maps :: "'act MapObj list \<Rightarrow> string \<Rightarrow> nat list \<Rightarrow> nat list" where
  "candidate_maps h prefix [] = []"
| "candidate_maps h prefix (a # as) =
     candidate_names prefix a (names_of h a) @ candidate_maps h prefix as"

text \<open>
  \<open>user[mode].concat(main[mode])\<close> raises when \<open>user[mode]\<close> is missing; a missing
  \<open>main[mode]\<close> puts \<open>undefined\<close> at the end of the array, and reading its
  \<open>names\<close> raises.
\<close>

definition getCandidates :: "nat \<Rightarrow> string \<Rightarrow> 'act state \<Rightarrow> error + nat list" where
  "getCandidates mode prefix s =
     (case user s mode of
        None \<Rightarrow> Inl TypeError
      | Some us \<Rightarrow>
          (case main s mode of
             None \<Rightarrow> Inl TypeError
           | Some ds \<Rightarrow> Inr (candidate_maps (heap s) prefix (us @ ds))))"

definition hasMap :: "nat \<Rightarrow> string \<Rightarrow> 'act state \<Rightarrow> error + bool" where
  "hasMap mode cmd s =
     (case user s mode of
        None \<Rightarrow> Inl TypeError
      | Some us \<Rightarrow> Inr (list_ex (\<lambda>a. hasName (heap s) a cmd) us))"

definition remove :: "nat \<Rightarrow> string \<Rightarrow> 'act state \<Rightarrow> 'act state" where
  "remove mode cmd s = removeMap mode cmd s"

definition removeAll :: "nat \<Rightarrow> 'act state \<Rightarrow> 'act state" where
  "removeAll mode s = s\<lparr>user := (user s)(mode \<mapsto> [])\<rparr>"

subsection \<open>Executing a mapping\<close>

text \<open>
  \<open>Map.prototype.execute\<close>, called on the object at address \<open>self\<close>. The parameter
  \<open>call\<close> is what \<open>f.apply(this, args)\<close> does for an action \<open>f\<close>: it gets the action,
  the address of \<open>this\<close>, the argument array and the state in which the call
  starts, and its value is the outcome of the call. \<open>None\<close> stands for an address
  that holds no object, which no caller can pass.
\<close>

definition execute_args :: "'act MapObj \<Rightarrow> jsval \<Rightarrow> jsval \<Rightarrow> jsval \<Rightarrow> jsval list" where
  "execute_args this mo co ar =
     (let args = [];
          args = (if MapObj.motion this then args @ [mo] else args);
          args = (if MapObj.count this then args @ [co] else args);
          args = (if MapObj.arg this then args @ [ar] else args)
      in args)"

definition execute ::
  "('act \<Rightarrow> nat \<Rightarrow> jsval list \<Rightarrow> 'act state \<Rightarrow> 'r) \<Rightarrow> nat \<Rightarrow> jsval \<Rightarrow> jsval \<Rightarrow> jsval
     \<Rightarrow> 'act state \<Rightarrow> 'r option" where
  "execute call self mo co ar s =
     (case obj (heap s) self of
        None \<Rightarrow> None
      | Some this \<Rightarrow>
          (let args = execute_args this mo co ar;
               s' = (if names0 this \<noteq> Some ''.''
                     then s\<lparr>repeat := Some (Closure self args)\<rparr> else s)
           in Some (call (action this) self args s')))"

text \<open>Calling the stored closure: \<open>self.action.apply(self, args)\<close>.\<close>

fun invoke ::
  "('act \<Rightarrow> nat \<Rightarrow> jsval list \<Rightarrow> 'act state \<Rightarrow> 'r) \<Rightarrow> closure \<Rightarrow> 'act state \<Rightarrow> 'r option" where
  "invoke call (Closure self args) s =
     (case obj (heap s) self of
        None \<Rightarrow> None
      | Some this \<Rightarrow> Some (call (action this) self args s))"

subsection \<open>Sequences of calls\<close>

text \<open>
  Running calls one after the other from a state; the first error ends the run, as
  an uncaught exception would.
\<close>

fun run :: "('s \<Rightarrow> error + 's) list \<Rightarrow> 's \<Rightarrow> error + 's" where
  "run [] s = Inr s"
| "run (f # fs) s = (case f s of Inl e \<Rightarrow> Inl e | Inr s' \<Rightarrow> run fs s')"

section \<open>The specification's wording and example states\<close>

text \<open>
  The argument list as the specification words it: the motion only if the mapping
  accepts a motion, then the count only if it accepts a count, then the argument
  only if it accepts an argument.
\<close>

definition spec_args :: "bool \<Rightarrow> bool \<Rightarrow> bool \<Rightarrow> jsval \<Rightarrow> jsval \<Rightarrow> jsval \<Rightarrow> jsval list" where
  "spec_args acceptsMotion acceptsCount acceptsArgument mo co ar =
     (if acceptsMotion then [mo] else []) @ (if acceptsCount then [co] else [])
       @ (if acceptsArgument then [ar] else [])"

text \<open>
  A state for the examples: the mapping \<open>d\<close> (accepts a motion and a count, no
  argument, action 7) at address 0 and the mapping \<open>.\<close> (action 8) at address 1.
\<close>

definition dw_state :: "nat state" where
  "dw_state = (init [1] None)
     \<lparr>heap := [Map_new (\<lambda>k. k) [1] [''d''] ''Delete'' 7
                 (Some (no_extra\<lparr>extraInfo.motion := True, extraInfo.count := True\<rparr>)),
               Map_new (\<lambda>k. k) [1] [''.''] ''Repeat'' 8 None]\<rparr>"

text \<open>
  States for the examples of lookup, each with the calls that lead to it from the
  initial state (lemmas \<open>shadow_state_reached\<close> and \<open>mode0_state_reached\<close>). In
  \<open>shadow_state\<close> the user mapping \<open>gg\<close> (address 0) and the default mapping
  \<open>gg\<close> (address 1) both live in mode 2. In \<open>mode0_state\<close> the same two
  registrations are made for the mode number 0.
\<close>

definition gg_user :: "nat \<Rightarrow> nat MapObj" where
  "gg_user mode = Map_new (\<lambda>k. k) [mode] [''gg''] ''User defined mapping'' 5
     (Some (no_extra\<lparr>extraInfo.user := True\<rparr>))"

definition gg_default :: "nat \<Rightarrow> nat MapObj" where
  "gg_default mode = Map_new (\<lambda>k. k) [mode] [''gg''] ''Go to top'' 6 None"

definition known_tables :: table where
  "known_tables = (\<lambda>mode. if mode \<in> set [1, 2] then Some [] else None)"

definition shadow_calls :: "(nat state \<Rightarrow> error + nat state) list" where
  "shadow_calls = [addUserMap (\<lambda>k. k) [2] [''gg''] [] 5 None,
                   add (\<lambda>k. k) [2] [''gg''] ''Go to top'' 6 None]"

definition shadow_state :: "nat state" where
  "shadow_state =
     \<lparr> heap = [gg_user 2, gg_default 2],
       main = known_tables(2 \<mapsto> [1]),
       user = known_tables(2 \<mapsto> [0]),
       repeat = None, mapleader = None \<rparr>"

definition mode0_calls :: "(nat state \<Rightarrow> error + nat state) list" where
  "mode0_calls = [addUserMap (\<lambda>k. k) [0] [''gg''] [] 5 None,
                  add (\<lambda>k. k) [0] [''gg''] ''Go to top'' 6 None]"

definition mode0_state :: "nat state" where
  "mode0_state =
     \<lparr> heap = [gg_user 0, gg_default 0],
       main = known_tables(0 \<mapsto> [1]),
       user = known_tables(0 \<mapsto> [0]),
       repeat = None, mapleader = None \<rparr>"

text \<open>The array of a mode, as \<open>stack[mode] || []\<close> reads it.\<close>

definition maps_of :: "table \<Rightarrow> nat \<Rightarrow> nat list" where
  "maps_of stack mode = (case stack mode of None \<Rightarrow> [] | Some maps \<Rightarrow> maps)"

text \<open>
  Prefix candidates as the specification words them: the name starts with the
  prefix and is strictly longer, and when the prefix is \<open><\<close> the name does not
  match \<open>^<.+>\<close> (a \<open><\<close>, one or more characters other than line terminators,
  a \<open>>\<close>, then anything).
\<close>

definition spec_bracketed :: "string \<Rightarrow> bool" where
  "spec_bracketed name =
     (\<exists>mid rest. name = CHR ''<'' # mid @ CHR ''>'' # rest \<and> mid \<noteq> []
        \<and> (\<forall>c \<in> set mid. \<not> line_terminator c))"

definition spec_candidate :: "string \<Rightarrow> string \<Rightarrow> bool" where
  "spec_candidate prefix name =
     ((\<exists>t. name = prefix @ t) \<and> length prefix < length name
      \<and> (prefix = ''<'' \<longrightarrow> \<not> spec_bracketed name))"

text \<open>
  A state for the examples of prefix candidates, with the calls that lead to it
  (lemma \<open>cand_state_reached\<close>): in mode 1, the default mappings \<open>d\<close> (address 0),
  \<open>dd\<close> (2) and \<open><C-x>\<close> (3), and the user mappings \<open>dw\<close> (1) and \<open><a\<close> (4).
\<close>

definition named_default :: "string \<Rightarrow> nat MapObj" where
  "named_default name = Map_new (\<lambda>k. k) [1] [name] ''built in'' 6 None"

definition named_user :: "string \<Rightarrow> nat MapObj" where
  "named_user name = Map_new (\<lambda>k. k) [1] [name] ''User defined mapping'' 5
     (Some (no_extra\<lparr>extraInfo.user := True\<rparr>))"

definition cand_calls :: "(nat state \<Rightarrow> error + nat state) list" where
  "cand_calls = [add (\<lambda>k. k) [1] [''d''] ''built in'' 6 None,
                 addUserMap (\<lambda>k. k) [1] [''dw''] [] 5 None,
                 add (\<lambda>k. k) [1] [''dd''] ''built in'' 6 None,
                 add (\<lambda>k. k) [1] [''<C-x>''] ''built in'' 6 None,
                 addUserMap (\<lambda>k. k) [1] [''<a''] [] 5 None]"

definition cand_state :: "nat state" where
  "cand_state =
     \<lparr> heap = [named_default ''d'', named_user ''dw'', named_default ''dd'',
               named_default ''<C-x>'', named_user ''<a''],
       main = known_tables(1 \<mapsto> [0, 2, 3]),
       user = known_tables(1 \<mapsto> [1, 4]),
       repeat = None, mapleader = None \<rparr>"


text \<open>
  A state for the examples of the cross-mode view and of shared objects, with the
  call that leads to it (lemma \<open>pair_state_reached\<close>): one user mapping \<open>gg\<close> with
  rhs \<open>G\<close>, registered for the modes 2 and 3.
\<close>

definition pair_map :: "nat MapObj" where
  "pair_map = Map_new (\<lambda>k. k) [2, 3] [''gg''] ''User defined mapping'' 5
     (Some (no_extra\<lparr>extraInfo.rhs := Some ''G'', extraInfo.user := True\<rparr>))"

definition pair_calls :: "(nat state \<Rightarrow> error + nat state) list" where
  "pair_calls = [addUserMap (\<lambda>k. k) [2, 3] [''gg''] [] 5
                   (Some (no_extra\<lparr>extraInfo.rhs := Some ''G''\<rparr>))]"

definition pair_state :: "nat state" where
  "pair_state =
     \<lparr> heap = [pair_map],
       main = (\<lambda>mode. if mode \<in> set [2, 3] then Some [] else None),
       user = (\<lambda>mode. if mode \<in> set [2, 3] then Some [] else None)(2 \<mapsto> [0], 3 \<mapsto> [0]),
       repeat = None, mapleader = None \<rparr>"

text \<open>
  How often a name occurs in an array of objects, counting every occurrence in the
  \<open>names\<close> of every entry.
\<close>

definition occurrences :: "'act MapObj list \<Rightarrow> string \<Rightarrow> nat list \<Rightarrow> nat" where
  "occurrences h name maps = sum_list (map (\<lambda>a. count_list (names_of h a) name) maps)"

text \<open>
  A state for the examples of removal, with the call that leads to it (lemma
  \<open>dup_state_reached\<close>): one user mapping, registered for mode 2 with the key list
  \<open>["a", "a"]\<close>. No default mapping exists.
\<close>

definition dup_map :: "nat MapObj" where
  "dup_map = Map_new (\<lambda>k. k) [2] [''a'', ''a''] ''User defined mapping'' 5
     (Some (no_extra\<lparr>extraInfo.user := True\<rparr>))"

definition dup_calls :: "(nat state \<Rightarrow> error + nat state) list" where
  "dup_calls = [addUserMap (\<lambda>k. k) [2] [''a'', ''a''] [] 5 None]"

definition dup_state :: "nat state" where
  "dup_state =
     \<lparr> heap = [dup_map], main = known_tables, user = known_tables(2 \<mapsto> [0]),
       repeat = None, mapleader = None \<rparr>"

text \<open>
  The user arrays hold addresses of allocated objects only. The initial state has
  this property and every call keeps it.
\<close>

definition allocated :: "'act state \<Rightarrow> bool" where
  "allocated s = (\<forall>mode. \<forall>a \<in> set (maps_of (user s) mode). a < length (heap s))"

text \<open>
  Two registrations in a row and the state they lead to: the user mapping with the
  key list \<open>["a", "a"]\<close> (action 5) for mode 2, then a second user mapping with
  the key \<open>a\<close> (action 7) for mode 2.
\<close>

definition dup2_calls :: "(nat state \<Rightarrow> error + nat state) list" where
  "dup2_calls = [addUserMap (\<lambda>k. k) [2] [''a'', ''a''] [] 5 None,
                 addUserMap (\<lambda>k. k) [2] [''a''] [] 7 None]"

definition dup2_state :: "nat state" where
  "dup2_state =
     \<lparr> heap = [dup_map\<lparr>names := [''a'']\<rparr>,
               Map_new (\<lambda>k. k) [2] [''a''] ''User defined mapping'' 7
                 (Some (no_extra\<lparr>extraInfo.user := True\<rparr>))],
       main = known_tables, user = known_tables(2 \<mapsto> [0, 1]),
       repeat = None, mapleader = None \<rparr>"





text \<open>
  A state for the examples of the filter (lemma \<open>view_state_reached\<close>), with six
  user mappings, each registered for one mode. Mode 2 has \<open>gg\<close> with rhs \<open>G\<close>
  (address 0), \<open>j\<close> with rhs \<open>G\<close> (1) and \<open>k\<close> with rhs \<open>K\<close> (2). Mode 3 has the
  names \<open>gg, zz\<close> with rhs \<open>G\<close> (3), \<open>j\<close> with rhs \<open>H\<close> (4) and the names
  \<open>kk, k\<close> with rhs \<open>K\<close> (5). Only the first object of mode 2 has a counterpart in
  mode 3: the second differs from its namesake in the rhs, the third from the
  object with its rhs in the first name.
\<close>

definition rhs_user :: "nat list \<Rightarrow> string list \<Rightarrow> string \<Rightarrow> nat MapObj" where
  "rhs_user ms keys r = Map_new (\<lambda>k. k) ms keys ''User defined mapping'' 5
     (Some (no_extra\<lparr>extraInfo.rhs := Some r, extraInfo.user := True\<rparr>))"

definition map_cmd :: "nat list \<Rightarrow> string list \<Rightarrow> string \<Rightarrow> nat state \<Rightarrow> error + nat state" where
  "map_cmd ms keys r = addUserMap (\<lambda>k. k) ms keys [] 5 (Some (no_extra\<lparr>extraInfo.rhs := Some r\<rparr>))"

definition view_calls :: "(nat state \<Rightarrow> error + nat state) list" where
  "view_calls = [map_cmd [2] [''gg''] ''G'', map_cmd [2] [''j''] ''G'', map_cmd [2] [''k''] ''K'',
                 map_cmd [3] [''gg'', ''zz''] ''G'', map_cmd [3] [''j''] ''H'',
                 map_cmd [3] [''kk'', ''k''] ''K'']"

definition view_state :: "nat state" where
  "view_state =
     \<lparr> heap = [rhs_user [2] [''gg''] ''G'', rhs_user [2] [''j''] ''G'', rhs_user [2] [''k''] ''K'',
               rhs_user [3] [''gg'', ''zz''] ''G'', rhs_user [3] [''j''] ''H'',
               rhs_user [3] [''kk'', ''k''] ''K''],
       main = (\<lambda>mode. if mode \<in> set [2, 3] then Some [] else None),
       user = (\<lambda>mode. if mode \<in> set [2, 3] then Some [] else None)(2 \<mapsto> [0, 1, 2], 3 \<mapsto> [3, 4, 5]),
       repeat = None, mapleader = None \<rparr>"






text \<open>
  The state after one user mapping with the two keys \<open>gg\<close> and \<open>gG\<close> and rhs \<open>G\<close>
  has been registered for the modes 1 and 2 (lemma \<open>two_key_reached\<close>).
\<close>

definition two_key_state :: "nat state" where
  "two_key_state =
     \<lparr> heap = [rhs_user [1, 2] [''gg'', ''gG''] ''G''],
       main = known_tables, user = known_tables(1 \<mapsto> [0], 2 \<mapsto> [0]),
       repeat = None, mapleader = None \<rparr>"

section \<open>Properties\<close>

subsection \<open>Basic facts about objects and arrays\<close>

lemma modes_Map_new: "modes (Map_new canonicalKeys ms keys descr act extra) = ms"
  by (simp add: Map_new_def Let_def)

lemma names_Map_new:
  "names (Map_new canonicalKeys ms keys descr act extra) = map canonicalKeys keys"
  by (simp add: Map_new_def Let_def)

lemma obj_append_new: "obj (h @ [m]) (length h) = Some m"
  by (simp add: obj_def)

subsection \<open>Registering a default mapping with no mode\<close>

text \<open>
  Claim C1, as the code has it. \<open>add\<close> with an empty mode list throws nothing: the
  call returns, and because \<open>addMap\<close> loops over the modes of the new object, it
  pushes the object nowhere; both arrays are what they were. The source has no
  check of the mode list and no \<open>ConfigurationError\<close>.
\<close>

theorem add_empty_modes_returns:
  "\<exists>s'. add canonicalKeys [] keys descr act extra s = Inr s'
        \<and> main s' = main s \<and> user s' = user s"
  by (simp add: add_def alloc_def addMap_def obj_append_new modes_Map_new)

text \<open>
  Claim C1 as stated fails: registering the default mapping \<open>d\<close> with no mode in
  the initial state does not end in an error.
\<close>

theorem add_empty_modes_counterexample:
  "add (\<lambda>k. k) [] [''d''] ''delete'' (0::nat) None (init [1, 2] None) \<noteq> Inl ConfigurationError
   \<and> add (\<lambda>k. k) [] [''d''] ''delete'' (0::nat) None (init [1, 2] None) \<noteq> Inl TypeError"
  by (simp add: add_def alloc_def)

subsection \<open>Executing a mapping: the argument array\<close>

lemma execute_args_spec:
  "execute_args this mo co ar = spec_args (motion this) (count this) (arg this) mo co ar"
  by (simp add: execute_args_def spec_args_def)

lemma dw_obj0:
  "obj (heap dw_state) 0 = Some (Map_new (\<lambda>k. k) [1] [''d''] ''Delete'' 7
     (Some (no_extra\<lparr>extraInfo.motion := True, extraInfo.count := True\<rparr>)))"
  by (simp add: dw_state_def obj_def)

lemma dw_obj1: "obj (heap dw_state) (Suc 0) = Some (Map_new (\<lambda>k. k) [1] [''.''] ''Repeat'' 8 None)"
  by (simp add: dw_state_def obj_def)

lemma dw_repeat: "repeat dw_state = None"
  by (simp add: dw_state_def init_def)

text \<open>
  Claim C7. Whatever calling an action does (\<open>call\<close>), \<open>execute\<close> on the object
  \<open>this\<close> returns the outcome of calling the action of \<open>this\<close>, with \<open>this\<close> as
  receiver, on the list that holds the motion if \<open>this.motion\<close>, then the count if
  \<open>this.count\<close>, then the argument if \<open>this.arg\<close>. For a mapping that accepts a
  motion and a count but no argument, called with \<open>("w", 5, "x")\<close>, the list is
  \<open>["w", 5]\<close>.
\<close>

theorem execute_builds_args:
  "obj (heap s) self = Some this \<Longrightarrow>
     (\<exists>s'. execute call self mo co ar s =
        Some (call (action this) self
               (spec_args (motion this) (count this) (arg this) mo co ar) s'))
     \<and> (motion this \<and> count this \<and> \<not> arg this \<longrightarrow>
          (\<exists>s'. execute call self (Str ''w'') (Num 5) (Str ''x'') s =
             Some (call (action this) self [Str ''w'', Num 5] s')))"
  by (auto simp add: execute_def execute_args_spec spec_args_def Let_def)

theorem execute_builds_args_witness:
  "obj (heap dw_state) 0 \<noteq> None
   \<and> execute (\<lambda>f this args s. (f, this, args)) 0 (Str ''w'') (Num 5) (Str ''x'') dw_state
       = Some (7, 0, [Str ''w'', Num 5])"
  using execute_builds_args [OF dw_obj0, where call = "\<lambda>f this args s. (f, this, args)"
      and mo = "Str ''w''" and co = "Num 5" and ar = "Str ''x''"]
  by (simp add: dw_obj0 Map_new_def no_extra_def spec_args_def)

subsection \<open>Executing a mapping: the repeat slot\<close>

text \<open>
  Claim C8. When the first name of \<open>this\<close> is not \<open>.\<close>, the action is called in
  the state whose \<open>repeat\<close> slot holds the closure over \<open>this\<close> and the argument
  list, and calling that closure, in any state where the object still has its
  action, is the same call: the same action, the same receiver, the same
  arguments. When the first name is \<open>.\<close>, the action is called in the state as it
  was: \<open>execute\<close> does not write the slot.
\<close>

theorem execute_sets_repeat:
  "obj (heap s) self = Some this \<Longrightarrow> args = execute_args this mo co ar \<Longrightarrow>
     (names0 this \<noteq> Some ''.'' \<longrightarrow>
        execute call self mo co ar s
          = Some (call (action this) self args (s\<lparr>repeat := Some (Closure self args)\<rparr>))
        \<and> (\<forall>t this'. obj (heap t) self = Some this' \<and> action this' = action this \<longrightarrow>
              invoke call (Closure self args) t = Some (call (action this) self args t)))
     \<and> (names0 this = Some ''.'' \<longrightarrow>
          execute call self mo co ar s = Some (call (action this) self args s))"
  by (auto simp add: execute_def Let_def)

theorem execute_sets_repeat_witness:
  "obj (heap dw_state) 0 \<noteq> None \<and> obj (heap dw_state) (Suc 0) \<noteq> None
   \<and> execute (\<lambda>f this args s. (f, this, args, repeat s)) 0 (Str ''w'') (Num 5) (Str ''x'') dw_state
       = Some (7, 0, [Str ''w'', Num 5], Some (Closure 0 [Str ''w'', Num 5]))
   \<and> invoke (\<lambda>f this args s. (f, this, args, repeat s)) (Closure 0 [Str ''w'', Num 5]) dw_state
       = Some (7, 0, [Str ''w'', Num 5], None)
   \<and> execute (\<lambda>f this args s. (f, this, args, repeat s)) (Suc 0) (Str ''w'') (Num 5) (Str ''x'') dw_state
       = Some (8, Suc 0, [], None)"
  using execute_sets_repeat [OF dw_obj0 refl, where call = "\<lambda>f this args s. (f, this, args, repeat s)"
      and mo = "Str ''w''" and co = "Num 5" and ar = "Str ''x''"]
        execute_sets_repeat [OF dw_obj1 refl, where call = "\<lambda>f this args s. (f, this, args, repeat s)"
      and mo = "Str ''w''" and co = "Num 5" and ar = "Str ''x''"]
  by (simp add: dw_obj0 dw_obj1 dw_repeat Map_new_def no_extra_def names0_def execute_args_def)

subsection \<open>Lookup\<close>

lemma getMap_loop_None: "getMap_loop h cmd as = None \<longleftrightarrow> (\<forall>a \<in> set as. \<not> hasName h a cmd)"
  by (induction as) auto

lemma getMap_loop_Some: "getMap_loop h cmd as = Some a \<Longrightarrow> a \<in> set as \<and> hasName h a cmd"
  by (induction as) (auto split: if_splits)

lemma getMap_maps_of: "getMap h mode cmd stack = getMap_loop h cmd (maps_of stack mode)"
  by (simp add: getMap_def maps_of_def)

lemma getMap_loop_first:
  "getMap_loop h cmd as = Some a \<longleftrightarrow>
     (\<exists>pre post. as = pre @ a # post \<and> hasName h a cmd \<and> (\<forall>b \<in> set pre. \<not> hasName h b cmd))"
proof (induction as)
  case Nil
  then show ?case by simp
next
  case (Cons x xs)
  show ?case
  proof (cases "hasName h x cmd")
    case True
    have "(\<exists>pre post. x # xs = pre @ a # post \<and> hasName h a cmd \<and> (\<forall>b \<in> set pre. \<not> hasName h b cmd))
          \<longleftrightarrow> x = a"
    proof
      assume "\<exists>pre post. x # xs = pre @ a # post \<and> hasName h a cmd \<and> (\<forall>b \<in> set pre. \<not> hasName h b cmd)"
      then obtain pre post where p: "x # xs = pre @ a # post" "\<forall>b \<in> set pre. \<not> hasName h b cmd" by blast
      show "x = a"
      proof (cases pre)
        case Nil
        with p show ?thesis by simp
      next
        case (Cons y ys)
        with p True show ?thesis by auto
      qed
    next
      assume "x = a"
      with True show "\<exists>pre post. x # xs = pre @ a # post \<and> hasName h a cmd \<and> (\<forall>b \<in> set pre. \<not> hasName h b cmd)"
        by (intro exI[of _ "[]"] exI[of _ xs]) simp
    qed
    with True show ?thesis by auto
  next
    case False
    have "(\<exists>pre post. x # xs = pre @ a # post \<and> hasName h a cmd \<and> (\<forall>b \<in> set pre. \<not> hasName h b cmd))
          \<longleftrightarrow> (\<exists>pre post. xs = pre @ a # post \<and> hasName h a cmd \<and> (\<forall>b \<in> set pre. \<not> hasName h b cmd))"
      (is "?L \<longleftrightarrow> ?R")
    proof
      assume ?L
      then obtain pre post where p: "x # xs = pre @ a # post" "hasName h a cmd" "\<forall>b \<in> set pre. \<not> hasName h b cmd" by blast
      show ?R
      proof (cases pre)
        case Nil
        with p False show ?thesis by simp
      next
        case (Cons y ys)
        with p show ?thesis by auto
      qed
    next
      assume ?R
      then obtain pre post where p: "xs = pre @ a # post" "hasName h a cmd" "\<forall>b \<in> set pre. \<not> hasName h b cmd" by blast
      with False show ?L by (intro exI[of _ "x # pre"] exI[of _ post]) simp
    qed
    with False Cons.IH show ?thesis by simp
  qed
qed

text \<open>Evaluating the calls of the example states.\<close>

lemmas call_defs = add_def addUserMap_def alloc_def addMap_def obj_def
      Map_new_def no_extra_def remove_old_def removeMap_def push_mode_def init_def
      expandLeader_def replace_leader_def getMapLeader_def leader_pattern_def names_of_def Let_def

lemma shadow_state_reached: "run shadow_calls (init [1, 2] None) = Inr shadow_state"
  by (simp add: shadow_calls_def shadow_state_def gg_user_def gg_default_def known_tables_def call_defs)

lemma mode0_state_reached: "run mode0_calls (init [1, 2] None) = Inr mode0_state"
  by (simp add: mode0_calls_def mode0_state_def gg_user_def gg_default_def known_tables_def call_defs)

lemma shadow_user: "maps_of (user shadow_state) 2 = [0]"
  by (simp add: shadow_state_def maps_of_def)

lemma shadow_main: "maps_of (main shadow_state) 2 = [Suc 0]"
  by (simp add: shadow_state_def maps_of_def)

lemma shadow_names: "names_of (heap shadow_state) 0 = [''gg'']" "names_of (heap shadow_state) (Suc 0) = [''gg'']"
  by (simp_all add: shadow_state_def names_of_def obj_def gg_user_def gg_default_def Map_new_def)

text \<open>
  Claim C4, as the code has it. For a mode that is not the number 0: when some
  object of the mode's user array has the name, \<open>get\<close> returns the first such
  object, whatever the default array holds; when no object of either array has
  the name (or the mode has no array), \<open>get\<close> returns \<open>null\<close> and raises nothing.
  The mode number 0 is falsy, and \<open>get\<close> looks up \<open>modes.NORMAL\<close> in its place.
\<close>

theorem get_user_shadows_default:
  "mode \<noteq> 0 \<Longrightarrow>
     ((\<exists>u \<in> set (maps_of (user s) mode). hasName (heap s) u cmd) \<longrightarrow>
        (\<exists>pre u post. maps_of (user s) mode = pre @ u # post \<and> hasName (heap s) u cmd
           \<and> (\<forall>b \<in> set pre. \<not> hasName (heap s) b cmd) \<and> get NORMAL mode cmd s = Some u))
     \<and> ((\<forall>u \<in> set (maps_of (user s) mode). \<not> hasName (heap s) u cmd)
          \<and> (\<forall>d \<in> set (maps_of (main s) mode). \<not> hasName (heap s) d cmd) \<longrightarrow>
            get NORMAL mode cmd s = None)
     \<and> get NORMAL 0 cmd s = get NORMAL NORMAL cmd s"
proof (intro conjI impI)
  assume m: "mode \<noteq> 0" and ex: "\<exists>u \<in> set (maps_of (user s) mode). hasName (heap s) u cmd"
  then have "getMap_loop (heap s) cmd (maps_of (user s) mode) \<noteq> None"
    by (simp add: getMap_loop_None)
  then obtain u where u: "getMap_loop (heap s) cmd (maps_of (user s) mode) = Some u" by blast
  then obtain pre post where "maps_of (user s) mode = pre @ u # post" "hasName (heap s) u cmd"
      "\<forall>b \<in> set pre. \<not> hasName (heap s) b cmd"
    using getMap_loop_first [of "heap s" cmd "maps_of (user s) mode" u] by blast
  moreover from m u have "get NORMAL mode cmd s = Some u"
    by (simp add: get_def getMap_maps_of)
  ultimately show "\<exists>pre u post. maps_of (user s) mode = pre @ u # post \<and> hasName (heap s) u cmd
           \<and> (\<forall>b \<in> set pre. \<not> hasName (heap s) b cmd) \<and> get NORMAL mode cmd s = Some u"
    by blast
next
  assume m: "mode \<noteq> 0" and no: "(\<forall>u \<in> set (maps_of (user s) mode). \<not> hasName (heap s) u cmd)
          \<and> (\<forall>d \<in> set (maps_of (main s) mode). \<not> hasName (heap s) d cmd)"
  then have "getMap_loop (heap s) cmd (maps_of (user s) mode) = None"
     "getMap_loop (heap s) cmd (maps_of (main s) mode) = None"
    by (simp_all add: getMap_loop_None)
  with m show "get NORMAL mode cmd s = None"
    by (simp add: get_def getMap_maps_of)
next
  show "get NORMAL 0 cmd s = get NORMAL NORMAL cmd s"
    by (simp add: get_def)
qed

theorem get_user_shadows_default_witness:
  "(2::nat) \<noteq> 0
   \<and> (\<exists>u \<in> set (maps_of (user shadow_state) 2). hasName (heap shadow_state) u ''gg'')
   \<and> (\<exists>d \<in> set (maps_of (main shadow_state) 2). hasName (heap shadow_state) d ''gg'')
   \<and> get 1 2 ''gg'' shadow_state = Some 0
   \<and> maps_of (user shadow_state) 2 = [0] \<and> \<not> hasName (heap shadow_state) 0 ''j''
   \<and> maps_of (main shadow_state) 2 = [Suc 0] \<and> \<not> hasName (heap shadow_state) (Suc 0) ''j''
   \<and> get 1 2 ''j'' shadow_state = None"
  using get_user_shadows_default [of 2 shadow_state "''gg''" 1]
        get_user_shadows_default [of 2 shadow_state "''j''" 1]
  by (auto simp add: shadow_user shadow_main shadow_names hasName_def Cons_eq_append_conv)

text \<open>
  Claim C4 as stated fails for the mode number 0 (with \<open>modes.NORMAL = 1\<close>): a user
  mapping and a default mapping named \<open>gg\<close> both exist in mode 0, and
  \<open>get(0, "gg")\<close> returns \<open>null\<close>, because it searches the arrays of mode 1.
\<close>

theorem get_falsy_mode_counterexample:
  "getMap (heap mode0_state) 0 ''gg'' (user mode0_state) = Some 0
   \<and> getMap (heap mode0_state) 0 ''gg'' (main mode0_state) = Some 1
   \<and> get 1 0 ''gg'' mode0_state = None"
  by (simp add: get_def getMap_def hasName_def names_of_def obj_def mode0_state_def
      gg_user_def gg_default_def known_tables_def Map_new_def)

subsection \<open>Expanding the leader token\<close>

text \<open>
  What \<open>expandLeader\<close> does for a leader without a dollar sign: the leftmost
  match of the token, in any case of its letters, is replaced by the leader, and a
  string without the token is returned as it is. \<open>expandLeader\<close> returns a string
  and no state: it changes nothing.
\<close>

lemma interpret_dollar_plain:
  "CHR ''$'' \<notin> set x \<Longrightarrow> interpret_dollar l m r x = x"
  by (induction l m r x rule: interpret_dollar.induct) auto

lemma expandLeader_plain_leader:
  "CHR ''$'' \<notin> set (getMapLeader s) \<Longrightarrow>
     find_match leader_pattern [] keyString = Some (l, m, r) \<Longrightarrow>
     expandLeader s keyString = l @ getMapLeader s @ r"
  by (simp add: expandLeader_def replace_leader_def interpret_dollar_plain)

lemma expandLeader_no_token:
  "find_match leader_pattern [] keyString = None \<Longrightarrow> expandLeader s keyString = keyString"
  by (simp add: expandLeader_def replace_leader_def)

lemma find_match_sound:
  "find_match p acc keyString = Some (l, m, r) \<Longrightarrow>
     acc @ keyString = l @ m @ r \<and> match_here p m \<and> length m = length p"
proof (induction p acc keyString rule: find_match.induct)
  case (1 p left)
  then show ?case by simp
next
  case (2 p left c s)
  show ?case
  proof (cases "match_here p (c # s)")
    case True
    have "match_here q t \<Longrightarrow> match_here q (take (length q) t) \<and> length q \<le> length t" for q t
      by (induction q t rule: match_here.induct) auto
    from this [OF True] True "2.prems" show ?thesis by auto
  next
    case False
    with 2 show ?thesis by simp
  qed
qed

lemma expandLeader_comma:
  "expandLeader ((init [1] (Some '','')) :: nat state) ''<Leader>w'' = '',w''
   \<and> expandLeader ((init [1] (Some '','')) :: nat state) ''<LEADER>w'' = '',w''
   \<and> expandLeader ((init [1] None) :: nat state) ''<leader>w'' = [CHR 0x5C, CHR ''w'']"
  by (simp add: expandLeader_def replace_leader_def getMapLeader_def init_def leader_pattern_def)

text \<open>
  Claim C9 at the failing input. With the leader \<open>$&\<close> the token is replaced by
  itself, and with the leader \<open>$$\<close> by a single dollar sign: \<open>replace\<close> reads the
  leader as a replacement pattern, not as the string to insert.
\<close>

theorem expandLeader_dollar_leader:
  "expandLeader ((init [1] (Some ''$&'')) :: nat state) ''<Leader>w'' = ''<Leader>w''
   \<and> expandLeader ((init [1] (Some ''$$'')) :: nat state) ''<Leader>w'' = ''$w''"
  by (simp add: expandLeader_def replace_leader_def getMapLeader_def init_def leader_pattern_def)

subsection \<open>Prefix candidates\<close>

lemma cand_state_reached: "run cand_calls (init [1, 2] None) = Inr cand_state"
  by (simp add: cand_calls_def cand_state_def named_default_def named_user_def known_tables_def call_defs
      eval_nat_numeral)

lemma starts_with_iff: "starts_with name p \<longleftrightarrow> (\<exists>t. name = p @ t)"
  by (induction name p rule: starts_with.induct) auto

lemma dot_plus_gt_iff:
  "dot_plus_gt seen cs \<longleftrightarrow>
     (\<exists>mid rest. cs = mid @ CHR ''>'' # rest \<and> (seen \<or> mid \<noteq> [])
        \<and> (\<forall>c \<in> set mid. \<not> line_terminator c))"
proof (induction cs arbitrary: seen)
  case Nil
  then show ?case by simp
next
  case (Cons c cs)
  show ?case (is "?L \<longleftrightarrow> ?R")
  proof
    assume ?L
    then consider "seen" "c = CHR ''>''" | "\<not> line_terminator c" "dot_plus_gt True cs"
      by auto
    then show ?R
    proof cases
      case 1
      then have "c # cs = [] @ CHR ''>'' # cs \<and> (seen \<or> [] \<noteq> ([]::string))
          \<and> (\<forall>c \<in> set ([]::string). \<not> line_terminator c)" by simp
      then show ?thesis by blast
    next
      case 2
      from 2(2) Cons.IH [of True] obtain mid rest where
        m: "cs = mid @ CHR ''>'' # rest" "\<forall>c \<in> set mid. \<not> line_terminator c" by auto
      with 2(1) have "c # cs = (c # mid) @ CHR ''>'' # rest \<and> (seen \<or> c # mid \<noteq> [])
          \<and> (\<forall>x \<in> set (c # mid). \<not> line_terminator x)" by simp
      then show ?thesis by blast
    qed
  next
    assume ?R
    then obtain mid rest where m: "c # cs = mid @ CHR ''>'' # rest" "seen \<or> mid \<noteq> []"
        "\<forall>c \<in> set mid. \<not> line_terminator c" by blast
    show ?L
    proof (cases mid)
      case Nil
      with m show ?thesis by simp
    next
      case (Cons x xs)
      with m have "c = x" "cs = xs @ CHR ''>'' # rest" "\<not> line_terminator c"
          "\<forall>c \<in> set xs. \<not> line_terminator c" by auto
      then have "dot_plus_gt True cs" using Cons.IH [of True] by blast
      with \<open>\<not> line_terminator c\<close> show ?thesis by simp
    qed
  qed
qed

lemma looks_bracketed_iff: "looks_bracketed name \<longleftrightarrow> spec_bracketed name"
  by (cases name) (auto simp add: looks_bracketed_def spec_bracketed_def dot_plus_gt_iff)

lemma is_candidate_iff: "is_candidate p n \<longleftrightarrow> spec_candidate p n"
  by (auto simp add: is_candidate_def spec_candidate_def starts_with_iff looks_bracketed_iff)

lemma set_candidate_names:
  "set (candidate_names p a ns) = (if \<exists>n \<in> set ns. is_candidate p n then {a} else {})"
  by (induction ns) auto

lemma set_candidate_maps:
  "set (candidate_maps h p as) = {a \<in> set as. \<exists>n \<in> set (names_of h a). is_candidate p n}"
  by (induction as) (auto simp add: set_candidate_names split: if_splits)

lemma cand_names:
  "names_of (heap cand_state) 0 = [''d'']" "names_of (heap cand_state) (Suc 0) = [''dw'']"
  "names_of (heap cand_state) 2 = [''dd'']" "names_of (heap cand_state) 3 = [''<C-x>'']"
  "names_of (heap cand_state) 4 = [''<a'']"
  by (simp_all add: cand_state_def names_of_def obj_def named_default_def named_user_def Map_new_def)

lemma cand_tables: "user cand_state (Suc 0) = Some [Suc 0, 4]" "main cand_state (Suc 0) = Some [0, 2, 3]"
  by (simp_all add: cand_state_def)

lemma cand_examples:
  "getCandidates (Suc 0) ''d'' cand_state = Inr [Suc 0, 2]" "getCandidates (Suc 0) ''<'' cand_state = Inr [4]"
  by (simp_all add: getCandidates_def cand_tables cand_names is_candidate_def looks_bracketed_def line_terminator_def)

text \<open>
  Claim C5. For a mode that has both arrays, \<open>getCandidates\<close> returns a list whose
  elements are exactly the objects of the user array and of the default array one
  of whose names starts with the prefix, is strictly longer than it and, when the
  prefix is \<open><\<close>, does not match \<open>^<.+>\<close> (an object is listed once for each such
  name). So \<open>d\<close> is no candidate for \<open>d\<close> while \<open>dw\<close> and \<open>dd\<close> are, and for
  \<open><\<close> the name \<open><C-x>\<close> is no candidate while \<open><a\<close> is one; in the example state
  the candidates for \<open>d\<close> are the mappings \<open>dw\<close> and \<open>dd\<close>, and the only
  candidate for \<open><\<close> is the mapping \<open><a\<close>.
\<close>

theorem getCandidates_exact:
  "user s mode = Some us \<Longrightarrow> main s mode = Some ds \<Longrightarrow>
     (\<exists>out. getCandidates mode prefix s = Inr out
        \<and> set out = {a \<in> set (us @ ds). \<exists>name \<in> set (names_of (heap s) a). spec_candidate prefix name})
     \<and> \<not> spec_candidate ''d'' ''d'' \<and> spec_candidate ''d'' ''dw'' \<and> spec_candidate ''d'' ''dd''
     \<and> \<not> spec_candidate ''<'' ''<C-x>'' \<and> spec_candidate ''<'' ''<a''
     \<and> getCandidates 1 ''d'' cand_state = Inr [1, 2]
     \<and> getCandidates 1 ''<'' cand_state = Inr [4]"
proof (intro conjI)
  assume "user s mode = Some us" "main s mode = Some ds"
  then show "\<exists>out. getCandidates mode prefix s = Inr out
        \<and> set out = {a \<in> set (us @ ds). \<exists>name \<in> set (names_of (heap s) a). spec_candidate prefix name}"
    by (simp add: getCandidates_def set_candidate_maps is_candidate_iff)
next
  show "\<not> spec_candidate ''d'' ''d''" "spec_candidate ''d'' ''dw''" "spec_candidate ''d'' ''dd''"
    "\<not> spec_candidate ''<'' ''<C-x>''" "spec_candidate ''<'' ''<a''"
    by (simp_all add: is_candidate_iff [symmetric] is_candidate_def looks_bracketed_def line_terminator_def)
next
  show "getCandidates 1 ''d'' cand_state = Inr [1, 2]" "getCandidates 1 ''<'' cand_state = Inr [4]"
    by (simp_all add: cand_examples)
qed

theorem getCandidates_exact_witness:
  "user cand_state (Suc 0) = Some [Suc 0, 4] \<and> main cand_state (Suc 0) = Some [0, 2, 3]
   \<and> (\<exists>out. getCandidates (Suc 0) ''d'' cand_state = Inr out \<and> set out = {Suc 0, 2})"
proof -
  have "{a \<in> set ([Suc 0, 4] @ [0, 2, 3]). \<exists>name \<in> set (names_of (heap cand_state) a). spec_candidate ''d'' name}
        = {Suc 0, 2::nat}"
    by (auto simp add: cand_names is_candidate_iff [symmetric] is_candidate_def looks_bracketed_def)
  with getCandidates_exact [OF cand_tables, of "''d''"] show ?thesis
    by (simp add: cand_tables)
qed

subsection \<open>The cross-mode view\<close>

lemma pair_state_reached: "run pair_calls (init [2, 3] None) = Inr pair_state"
  by (simp add: pair_calls_def pair_state_def pair_map_def call_defs)






lemma user_Map_new_user:
  "MapObj.user (Map_new canonicalKeys ms keys descr act (Some (e\<lparr>extraInfo.user := True\<rparr>)))"
  by (simp add: Map_new_def)

lemma rhs_Map_new:
  "rhs (Map_new canonicalKeys ms keys descr act (Some e)) =
     (if extraInfo.rhs e = Some [] then None else extraInfo.rhs e)"
  by (simp add: Map_new_def)



lemma names_of_update:
  "names_of (h[a := (h ! a)\<lparr>names := ns\<rparr>]) b =
     (if b = a \<and> a < length h then ns else names_of h b)"
  by (simp add: names_of_def obj_def)




lemma pair_user: "user pair_state 2 = Some [0]" "user pair_state 3 = Some [0]"
  by (simp_all add: pair_state_def)

lemma init_user_empty: "maps_of (user (init known leader)) mode = []"
  by (simp add: init_def maps_of_def)



subsection \<open>Removing a user mapping\<close>

lemma dup_state_reached: "run dup_calls (init [1, 2] None) = Inr dup_state"
  by (simp add: dup_calls_def dup_state_def dup_map_def known_tables_def call_defs)

lemma names_of_valid: "x \<in> set (names_of h a) \<Longrightarrow> a < length h"
  by (auto simp add: names_of_def obj_def split: if_splits)

lemma removeMap_loop_absent:
  "\<forall>a \<in> set as. cmd \<notin> set (names_of h a) \<Longrightarrow> removeMap_loop h cmd as = (h, as)"
  by (induction as) auto

lemma removeMap_loop_found:
  "\<forall>b \<in> set pre. cmd \<notin> set (names_of h b) \<Longrightarrow> cmd \<in> set (names_of h a) \<Longrightarrow>
     removeMap_loop h cmd (pre @ a # post) =
       (h[a := (h ! a)\<lparr>names := remove1 cmd (names_of h a)\<rparr>],
        pre @ (if remove1 cmd (names_of h a) = [] then post else a # post))"
  by (induction pre) (auto simp add: Let_def)

lemma first_holder:
  "\<exists>a \<in> set as. P a \<Longrightarrow> \<exists>pre a post. as = pre @ a # post \<and> P a \<and> (\<forall>b \<in> set pre. \<not> P b)"
  by (metis split_list_first_prop)

lemma remove_absent:
  "\<forall>a \<in> set (maps_of (user s) mode). \<not> hasName (heap s) a name \<Longrightarrow> remove mode name s = s"
  by (auto simp add: remove_def removeMap_def maps_of_def hasName_def removeMap_loop_absent
      map_upd_triv split: option.splits)

lemma remove_found:
  assumes "maps_of (user s) mode = pre @ a # post"
    and "\<forall>b \<in> set pre. \<not> hasName (heap s) b name" and "hasName (heap s) a name"
  shows "names_of (heap (remove mode name s)) a = remove1 name (names_of (heap s) a)"
    and "\<forall>b. b \<noteq> a \<longrightarrow> names_of (heap (remove mode name s)) b = names_of (heap s) b"
    and "maps_of (user (remove mode name s)) mode =
           (if remove1 name (names_of (heap s) a) = [] then pre @ post else pre @ a # post)"
    and "\<forall>m. m \<noteq> mode \<longrightarrow> user (remove mode name s) m = user s m"
    and "main (remove mode name s) = main s"
proof -
  from assms(1) have u: "user s mode = Some (pre @ a # post)"
    by (auto simp add: maps_of_def split: option.splits)
  from assms(3) have v: "a < length (heap s)" by (auto simp add: hasName_def dest: names_of_valid)
  from assms(2,3) have l: "removeMap_loop (heap s) name (pre @ a # post) =
       ((heap s)[a := (heap s ! a)\<lparr>names := remove1 name (names_of (heap s) a)\<rparr>],
        pre @ (if remove1 name (names_of (heap s) a) = [] then post else a # post))"
    by (intro removeMap_loop_found) (auto simp add: hasName_def)
  show "names_of (heap (remove mode name s)) a = remove1 name (names_of (heap s) a)"
    using u v l by (simp add: remove_def removeMap_def names_of_update)
  show "\<forall>b. b \<noteq> a \<longrightarrow> names_of (heap (remove mode name s)) b = names_of (heap s) b"
    using u v l by (simp add: remove_def removeMap_def names_of_update)
  show "maps_of (user (remove mode name s)) mode =
           (if remove1 name (names_of (heap s) a) = [] then pre @ post else pre @ a # post)"
    using u v l by (simp add: remove_def removeMap_def maps_of_def)
  show "\<forall>m. m \<noteq> mode \<longrightarrow> user (remove mode name s) m = user s m"
    using u v l by (simp add: remove_def removeMap_def)
  show "main (remove mode name s) = main s"
    using u v l by (simp add: remove_def removeMap_def)
qed

lemma count_list_0: "count_list xs x = 0 \<longleftrightarrow> x \<notin> set xs"
  by (induction xs) auto

lemma count_list_remove1: "x \<in> set xs \<Longrightarrow> count_list (remove1 x xs) x = count_list xs x - 1"
  by (induction xs) auto

lemma occurrences_append:
  "occurrences h name (xs @ ys) = occurrences h name xs + occurrences h name ys"
  by (simp add: occurrences_def)

lemma occurrences_0:
  "occurrences h name maps = 0 \<longleftrightarrow> (\<forall>a \<in> set maps. \<not> hasName h a name)"
  by (induction maps) (auto simp add: occurrences_def hasName_def count_list_0)


lemma getMap_loop_cong:
  "\<forall>a \<in> set as. names_of h' a = names_of h a \<Longrightarrow> getMap_loop h' cmd as = getMap_loop h cmd as"
  by (induction as) (auto simp add: hasName_def)

lemma remove_once:
  assumes occ: "occurrences (heap s) name (maps_of (user s) mode) = 1"
  shows "\<forall>u \<in> set (maps_of (user (remove mode name s)) mode). \<not> hasName (heap (remove mode name s)) u name"
    and "\<forall>b. set (names_of (heap (remove mode name s)) b) \<subseteq> set (names_of (heap s) b)"
    and "\<exists>a \<in> set (maps_of (user s) mode).
           \<forall>b. b \<noteq> a \<longrightarrow> names_of (heap (remove mode name s)) b = names_of (heap s) b"
    and "main (remove mode name s) = main s"
proof -
  let ?s' = "remove mode name s"
  from occ have "\<exists>a \<in> set (maps_of (user s) mode). hasName (heap s) a name"
    using occurrences_0 [of "heap s" name "maps_of (user s) mode"] by auto
  then obtain pre a post where d: "maps_of (user s) mode = pre @ a # post"
      "hasName (heap s) a name" "\<forall>b \<in> set pre. \<not> hasName (heap s) b name"
    using first_holder [of "maps_of (user s) mode" "\<lambda>a. hasName (heap s) a name"] by blast
  have pre0: "occurrences (heap s) name pre = 0" using d(3) by (simp add: occurrences_0)
  have ca: "count_list (names_of (heap s) a) name \<noteq> 0"
    using d(2) by (simp add: count_list_0 hasName_def)
  from occ d(1) pre0 have "count_list (names_of (heap s) a) name + occurrences (heap s) name post = 1"
    by (simp add: occurrences_append) (simp add: occurrences_def)
  with ca have c1: "count_list (names_of (heap s) a) name = 1" and post0: "occurrences (heap s) name post = 0"
    by auto
  from post0 have postn: "\<forall>b \<in> set post. \<not> hasName (heap s) b name" by (simp add: occurrences_0)
  with d(2) have apost: "a \<notin> set post" by blast
  from d(2,3) have apre: "a \<notin> set pre" by blast
  note rf = remove_found [OF d(1) d(3) d(2)]
  have na: "\<not> hasName (heap ?s') a name"
    using rf(1) c1 d(2) count_list_remove1 [of name "names_of (heap s) a"]
    by (simp add: hasName_def count_list_0 [symmetric])
  have others: "\<forall>b \<in> set (pre @ post). \<not> hasName (heap ?s') b name"
    using rf(2) d(3) postn apre apost by (auto simp add: hasName_def)
  from rf(3) na others
  show "\<forall>u \<in> set (maps_of (user ?s') mode). \<not> hasName (heap ?s') u name"
    by (auto split: if_splits)
  show "\<forall>b. set (names_of (heap ?s') b) \<subseteq> set (names_of (heap s) b)"
  proof
    fix b
    show "set (names_of (heap ?s') b) \<subseteq> set (names_of (heap s) b)"
    proof (cases "b = a")
      case True
      with rf(1) show ?thesis using set_remove1_subset [of name "names_of (heap s) a"] by simp
    next
      case False
      with rf(2) show ?thesis by simp
    qed
  qed
  from rf(2) d(1)
  show "\<exists>a \<in> set (maps_of (user s) mode).
           \<forall>b. b \<noteq> a \<longrightarrow> names_of (heap ?s') b = names_of (heap s) b"
    by auto
  show "main ?s' = main s" by (rule rf(5))
qed

lemma shadow_occ: "occurrences (heap shadow_state) ''gg'' (maps_of (user shadow_state) 2) = 1"
  by (simp add: occurrences_def shadow_user shadow_names)

lemma shadow_disjoint:
  "set (maps_of (user shadow_state) 2) \<inter> set (maps_of (main shadow_state) 2) = {}"
  by (simp add: shadow_user shadow_main)

lemma shadow_default: "getMap (heap shadow_state) 2 ''gg'' (main shadow_state) = Some (Suc 0)"
  by (simp add: getMap_maps_of shadow_main hasName_def shadow_names)

lemma pair_names: "names_of (heap pair_state) 0 = [''gg'']"
  by (simp add: pair_state_def names_of_def obj_def pair_map_def Map_new_def)

lemma pair_occ: "occurrences (heap pair_state) ''gg'' (maps_of (user pair_state) 2) = 1"
  by (simp add: occurrences_def maps_of_def pair_user pair_names)

lemma pair_main: "maps_of (main pair_state) 2 = []"
  by (simp add: pair_state_def maps_of_def)

text \<open>
  Claim C6, as the code has it. \<open>remove(mode, name)\<close> changes nothing when no
  object of the mode's user array has the name. Otherwise it splices the first
  occurrence of the name out of the first object that has it, leaves every other
  object as it is, drops that object from the mode's array exactly when no name
  is left, and touches neither the other modes' arrays nor the default arrays.
  Afterwards, when the mode is not the number 0 and the name occurred exactly once
  in the mode's user array: \<open>get\<close> returns \<open>null\<close> if no default mapping of the mode
  has the name, and it returns what the default array gives (the default mapping
  with that name, the user and default arrays sharing no object).
\<close>

theorem remove_first_occurrence:
  "((\<forall>a \<in> set (maps_of (user s) mode). \<not> hasName (heap s) a name) \<longrightarrow> remove mode name s = s)
   \<and> (maps_of (user s) mode = pre @ a # post \<and> (\<forall>b \<in> set pre. \<not> hasName (heap s) b name)
        \<and> hasName (heap s) a name \<longrightarrow>
          names_of (heap (remove mode name s)) a = remove1 name (names_of (heap s) a)
          \<and> (\<forall>b. b \<noteq> a \<longrightarrow> names_of (heap (remove mode name s)) b = names_of (heap s) b)
          \<and> maps_of (user (remove mode name s)) mode =
               (if remove1 name (names_of (heap s) a) = [] then pre @ post else pre @ a # post)
          \<and> (\<forall>m. m \<noteq> mode \<longrightarrow> user (remove mode name s) m = user s m)
          \<and> main (remove mode name s) = main s)
   \<and> (mode \<noteq> 0 \<and> occurrences (heap s) name (maps_of (user s) mode) = 1 \<longrightarrow>
          ((\<forall>d \<in> set (maps_of (main s) mode). \<not> hasName (heap s) d name) \<longrightarrow>
              get NORMAL mode name (remove mode name s) = None)
          \<and> (set (maps_of (user s) mode) \<inter> set (maps_of (main s) mode) = {} \<longrightarrow>
              get NORMAL mode name (remove mode name s) = getMap (heap s) mode name (main s))
          \<and> get NORMAL mode name (remove mode name s)
               = getDefault NORMAL mode name (remove mode name s))"
proof (intro conjI impI)
  assume "\<forall>a \<in> set (maps_of (user s) mode). \<not> hasName (heap s) a name"
  then show "remove mode name s = s" by (rule remove_absent)
next
  assume a: "maps_of (user s) mode = pre @ a # post \<and> (\<forall>b \<in> set pre. \<not> hasName (heap s) b name)
        \<and> hasName (heap s) a name"
  then have a1: "maps_of (user s) mode = pre @ a # post" and a2: "\<forall>b \<in> set pre. \<not> hasName (heap s) b name"
    and a3: "hasName (heap s) a name" by simp_all
  note rf = remove_found [OF a1 a2 a3]
  show "names_of (heap (remove mode name s)) a = remove1 name (names_of (heap s) a)" by (rule rf(1))
  show "\<forall>b. b \<noteq> a \<longrightarrow> names_of (heap (remove mode name s)) b = names_of (heap s) b" by (rule rf(2))
  show "maps_of (user (remove mode name s)) mode =
               (if remove1 name (names_of (heap s) a) = [] then pre @ post else pre @ a # post)"
    by (rule rf(3))
  show "\<forall>m. m \<noteq> mode \<longrightarrow> user (remove mode name s) m = user s m" by (rule rf(4))
  show "main (remove mode name s) = main s" by (rule rf(5))
next
  let ?s' = "remove mode name s"
  assume h: "mode \<noteq> 0 \<and> occurrences (heap s) name (maps_of (user s) mode) = 1"
  then have m: "mode \<noteq> 0" and occ: "occurrences (heap s) name (maps_of (user s) mode) = 1"
    by simp_all
  note ro = remove_once [OF occ]
  from ro(1) have un: "getMap (heap ?s') mode name (user ?s') = None"
    by (simp add: getMap_maps_of getMap_loop_None)
  with m have g: "get NORMAL mode name ?s' = getMap (heap ?s') mode name (main ?s')"
    by (simp add: get_def)
  with m show "get NORMAL mode name ?s' = getDefault NORMAL mode name ?s'"
    by (simp add: getDefault_def)
  {
    assume nd: "\<forall>d \<in> set (maps_of (main s) mode). \<not> hasName (heap s) d name"
    with ro(2) have "\<forall>d \<in> set (maps_of (main s) mode). \<not> hasName (heap ?s') d name"
      by (auto simp add: hasName_def)
    with g ro(4) show "get NORMAL mode name ?s' = None"
      by (simp add: getMap_maps_of getMap_loop_None)
  }
  {
    assume dj: "set (maps_of (user s) mode) \<inter> set (maps_of (main s) mode) = {}"
    from ro(3) obtain a where a: "a \<in> set (maps_of (user s) mode)"
        "\<forall>b. b \<noteq> a \<longrightarrow> names_of (heap ?s') b = names_of (heap s) b" by blast
    with dj have "\<forall>d \<in> set (maps_of (main s) mode). names_of (heap ?s') d = names_of (heap s) d"
      by auto
    then have "getMap_loop (heap ?s') name (maps_of (main s) mode)
        = getMap_loop (heap s) name (maps_of (main s) mode)"
      by (rule getMap_loop_cong)
    with g ro(4) show "get NORMAL mode name ?s' = getMap (heap s) mode name (main s)"
      by (simp add: getMap_maps_of)
  }
qed


theorem remove_first_occurrence_witness:
  "\<not> hasName (heap shadow_state) 0 ''j'' \<and> remove 2 ''j'' shadow_state = shadow_state
   \<and> maps_of (user shadow_state) 2 = [0] \<and> hasName (heap shadow_state) 0 ''gg''
   \<and> names_of (heap (remove 2 ''gg'' shadow_state)) 0 = []
   \<and> maps_of (user (remove 2 ''gg'' shadow_state)) 2 = []
   \<and> (2::nat) \<noteq> 0 \<and> occurrences (heap shadow_state) ''gg'' (maps_of (user shadow_state) 2) = 1
   \<and> get 1 2 ''gg'' (remove 2 ''gg'' shadow_state) = Some (Suc 0)
   \<and> occurrences (heap pair_state) ''gg'' (maps_of (user pair_state) 2) = 1
   \<and> maps_of (main pair_state) 2 = []
   \<and> get 1 2 ''gg'' (remove 2 ''gg'' pair_state) = None"
proof -
  note j = remove_first_occurrence [of shadow_state 2 "''j''" "[]" 0 "[]" 1]
  note g = remove_first_occurrence [of shadow_state 2 "''gg''" "[]" 0 "[]" 1]
  note p = remove_first_occurrence [of pair_state 2 "''gg''" "[]" 0 "[]" 1]
  have nj: "\<not> hasName (heap shadow_state) 0 ''j''" and hg: "hasName (heap shadow_state) 0 ''gg''"
    by (simp_all add: hasName_def shadow_names)
  from j nj have 1: "remove 2 ''j'' shadow_state = shadow_state"
    by (simp add: shadow_user)
  from g hg have 2: "names_of (heap (remove 2 ''gg'' shadow_state)) 0 = []"
      "maps_of (user (remove 2 ''gg'' shadow_state)) 2 = []"
    by (simp_all add: shadow_user shadow_names)
  from g shadow_occ shadow_disjoint
  have 3: "get 1 2 ''gg'' (remove 2 ''gg'' shadow_state) = Some (Suc 0)"
    by (simp add: shadow_default)
  from p pair_occ have 4: "get 1 2 ''gg'' (remove 2 ''gg'' pair_state) = None"
    by (simp add: pair_main)
  from nj hg 1 2 3 4 shadow_user shadow_occ pair_occ pair_main show ?thesis
    by simp
qed

text \<open>
  Claim C6 as stated fails when the name occurs twice. The user mapping of
  \<open>dup_state\<close> has the names \<open>["a", "a"]\<close> and exists only in the user layer;
  after \<open>remove(2, "a")\<close> one \<open>a\<close> is left, and \<open>get(2, "a")\<close> still returns the user
  mapping, not \<open>null\<close>. It also fails for the mode number 0 (with
  \<open>modes.NORMAL = 1\<close>): in \<open>mode0_state\<close> the default mapping \<open>gg\<close> of mode 0 is
  there, and after \<open>remove(0, "gg")\<close> the call \<open>get(0, "gg")\<close> returns \<open>null\<close>.
\<close>

theorem remove_duplicate_name_counterexample:
  "occurrences (heap dup_state) ''a'' (maps_of (user dup_state) 2) = 2
   \<and> getMap (heap dup_state) 2 ''a'' (main dup_state) = None
   \<and> names_of (heap (remove 2 ''a'' dup_state)) 0 = [''a'']
   \<and> get 1 2 ''a'' (remove 2 ''a'' dup_state) = Some 0
   \<and> occurrences (heap mode0_state) ''gg'' (maps_of (user mode0_state) 0) = 1
   \<and> getMap (heap mode0_state) 0 ''gg'' (main mode0_state) = Some 1
   \<and> get 1 0 ''gg'' (remove 0 ''gg'' mode0_state) = None"
  by (simp add: occurrences_def maps_of_def getMap_def get_def hasName_def remove_def removeMap_def
      dup_state_def dup_map_def known_tables_def names_of_def obj_def Map_new_def
      mode0_state_def gg_user_def gg_default_def)

subsection \<open>One object in several arrays\<close>

lemma removeMap_loop_keeps:
  "a \<notin> set as \<Longrightarrow>
     obj (fst (removeMap_loop h cmd as)) a = obj h a
     \<and> a \<notin> set (snd (removeMap_loop h cmd as))
     \<and> length (fst (removeMap_loop h cmd as)) = length h"
proof (induction as)
  case Nil
  then show ?case by simp
next
  case (Cons b as)
  then show ?case
    by (auto simp add: Let_def obj_def split: prod.splits)
qed

lemma removeMap_keeps:
  assumes "\<forall>m. a \<notin> set (maps_of (user s) m)"
  shows "obj (heap (removeMap mode cmd s)) a = obj (heap s) a
     \<and> (\<forall>m. a \<notin> set (maps_of (user (removeMap mode cmd s)) m))"
proof (cases "user s mode")
  case None
  with assms show ?thesis by (simp add: removeMap_def)
next
  case (Some maps)
  with assms have "a \<notin> set maps" by (auto simp add: maps_of_def dest: spec [of _ mode])
  from removeMap_loop_keeps [OF this, of "heap s" cmd] Some assms show ?thesis
    by (auto simp add: removeMap_def maps_of_def split: prod.splits)
qed

lemma removeMap_modes_keeps:
  "\<forall>m. a \<notin> set (maps_of (user s) m) \<Longrightarrow>
     obj (heap (foldl (\<lambda>s mode. removeMap mode name s) s ms)) a = obj (heap s) a
     \<and> (\<forall>m. a \<notin> set (maps_of (user (foldl (\<lambda>s mode. removeMap mode name s) s ms)) m))"
proof (induction ms arbitrary: s)
  case Nil
  then show ?case by simp
next
  case (Cons mode ms)
  from removeMap_keeps [OF Cons.prems, of mode name]
  have k: "obj (heap (removeMap mode name s)) a = obj (heap s) a"
    "\<forall>m. a \<notin> set (maps_of (user (removeMap mode name s)) m)" by simp_all
  from Cons.IH [OF k(2)] k(1) show ?case by simp
qed

lemma remove_old_keeps:
  "\<forall>m. a \<notin> set (maps_of (user s) m) \<Longrightarrow>
     obj (heap (remove_old ms ns s)) a = obj (heap s) a
     \<and> (\<forall>m. a \<notin> set (maps_of (user (remove_old ms ns s)) m))"
proof (induction ns arbitrary: s)
  case Nil
  then show ?case by (simp add: remove_old_def)
next
  case (Cons name ns)
  let ?s' = "foldl (\<lambda>s mode. removeMap mode name s) s ms"
  from removeMap_modes_keeps [OF Cons.prems, of name ms]
  have k: "obj (heap ?s') a = obj (heap s) a" "\<forall>m. a \<notin> set (maps_of (user ?s') m)" by simp_all
  from Cons.IH [OF k(2)] k(1) show ?case by (simp add: remove_old_def)
qed

lemma push_mode_last:
  "(\<exists>pre. t m = Some (pre @ [a])) \<Longrightarrow> \<exists>pre. push_mode a t m' m = Some (pre @ [a])"
  by (auto simp add: push_mode_def)

lemma foldl_push_mode_last:
  "(\<exists>pre. t m = Some (pre @ [a])) \<Longrightarrow> \<exists>pre. foldl (push_mode a) t ms m = Some (pre @ [a])"
proof (induction ms arbitrary: t)
  case Nil
  then show ?case by simp
next
  case (Cons m' ms)
  from Cons.prems have "\<exists>pre. push_mode a t m' m = Some (pre @ [a])"
    by (rule push_mode_last)
  then have "\<exists>pre. foldl (push_mode a) (push_mode a t m') ms m = Some (pre @ [a])"
    by (rule Cons.IH)
  then show ?case by simp
qed

lemma foldl_push_mode_in:
  "m \<in> set ms \<Longrightarrow> \<exists>pre. foldl (push_mode a) t ms m = Some (pre @ [a])"
proof (induction ms arbitrary: t)
  case Nil
  then show ?case by simp
next
  case (Cons m' ms)
  show ?case
  proof (cases "m = m'")
    case True
    have "\<exists>pre. push_mode a t m' m = Some (pre @ [a])"
      using True by (simp add: push_mode_def)
    then have "\<exists>pre. foldl (push_mode a) (push_mode a t m') ms m = Some (pre @ [a])"
      by (rule foldl_push_mode_last)
    then show ?thesis by simp
  next
    case False
    with Cons.prems have "m \<in> set ms" by simp
    then have "\<exists>pre. foldl (push_mode a) (push_mode a t m') ms m = Some (pre @ [a])"
      by (rule Cons.IH)
    then show ?thesis by simp
  qed
qed

lemma addUserMap_shared:
  assumes "allocated s"
  shows "\<exists>s1. addUserMap canonicalKeys ms keys descr act extra s = Inr s1
      \<and> names_of (heap s1) (length (heap s)) = map canonicalKeys (map (expandLeader s) keys)
      \<and> (\<forall>m \<in> set ms. \<exists>pre. user s1 m = Some (pre @ [length (heap s)]))"
proof -
  let ?a = "length (heap s)"
  let ?m = "Map_new canonicalKeys ms (map (expandLeader s) keys)
                (if descr = [] then ''User defined mapping'' else descr) act
                (Some ((case extra of None \<Rightarrow> no_extra | Some x \<Rightarrow> x)\<lparr>extraInfo.user := True\<rparr>))"
  let ?s1 = "s\<lparr>heap := heap s @ [?m]\<rparr>"
  let ?s2 = "remove_old ms (map canonicalKeys (map (expandLeader s) keys)) ?s1"
  from assms have fresh: "\<forall>m. ?a \<notin> set (maps_of (user ?s1) m)"
    by (fastforce simp add: allocated_def)
  from remove_old_keeps [OF fresh]
  have o: "obj (heap ?s2) ?a = Some ?m" by (simp add: obj_append_new)
  have eq: "addUserMap canonicalKeys ms keys descr act extra s = Inr (addMap ?a ?s2)"
    by (simp add: addUserMap_def alloc_def Let_def modes_Map_new names_Map_new)
  have u: "user (addMap ?a ?s2) = foldl (push_mode ?a) (user ?s2) ms"
    and h: "heap (addMap ?a ?s2) = heap ?s2"
    using o by (simp_all add: addMap_def user_Map_new_user modes_Map_new)
  have n: "names_of (heap (addMap ?a ?s2)) ?a = map canonicalKeys (map (expandLeader s) keys)"
    using o h by (simp add: names_of_def names_Map_new)
  have "\<forall>m \<in> set ms. \<exists>pre. user (addMap ?a ?s2) m = Some (pre @ [?a])"
    using u foldl_push_mode_in by metis
  with eq n show ?thesis by blast
qed

lemma getMap_loop_holder: "getMap_loop h cmd as = Some a \<Longrightarrow> hasName h a cmd"
  by (induction as) (auto split: if_splits)

lemma allocated_init: "allocated (init known leader)"
  by (simp add: allocated_def init_user_empty)

text \<open>
  Claim C10. \<open>addUserMap\<close> with one key creates one object, whose only name is the
  canonical form of the expanded key, and the user array of every mode of the call
  ends with the address of that same object. For an object \<open>a\<close> whose only name is
  \<open>n\<close>, found under \<open>n\<close> in mode \<open>m\<close> and also held by the user array of another
  mode \<open>m'\<close>: after \<open>remove(m, n)\<close> the object has no name left, so no lookup of
  \<open>n\<close> in any mode returns it, and it is still in the user array of \<open>m'\<close>.
\<close>

theorem shared_object_remove:
  "(allocated s \<longrightarrow>
      (\<exists>s1. addUserMap canonicalKeys ms [key] descr act extra s = Inr s1
         \<and> names_of (heap s1) (length (heap s)) = [canonicalKeys (expandLeader s key)]
         \<and> (\<forall>mode \<in> set ms. \<exists>pre. user s1 mode = Some (pre @ [length (heap s)]))))
   \<and> (names_of (heap t) a = [n] \<and> getMap (heap t) m n (user t) = Some a
        \<and> a \<in> set (maps_of (user t) m') \<and> m' \<noteq> m \<longrightarrow>
          names_of (heap (remove m n t)) a = []
          \<and> (\<forall>mode. getMap (heap (remove m n t)) mode n (user (remove m n t)) \<noteq> Some a)
          \<and> (\<forall>mode. get NORMAL mode n (remove m n t) \<noteq> Some a)
          \<and> a \<in> set (maps_of (user (remove m n t)) m'))"
proof (intro conjI impI)
  assume "allocated s"
  from addUserMap_shared [OF this, of canonicalKeys ms "[key]" descr act extra]
  show "\<exists>s1. addUserMap canonicalKeys ms [key] descr act extra s = Inr s1
         \<and> names_of (heap s1) (length (heap s)) = [canonicalKeys (expandLeader s key)]
         \<and> (\<forall>mode \<in> set ms. \<exists>pre. user s1 mode = Some (pre @ [length (heap s)]))"
    by simp
next
  let ?t' = "remove m n t"
  assume h: "names_of (heap t) a = [n] \<and> getMap (heap t) m n (user t) = Some a
        \<and> a \<in> set (maps_of (user t) m') \<and> m' \<noteq> m"
  then have g: "getMap_loop (heap t) n (maps_of (user t) m) = Some a"
    by (simp add: getMap_maps_of)
  then obtain pre post where d: "maps_of (user t) m = pre @ a # post" "hasName (heap t) a n"
      "\<forall>b \<in> set pre. \<not> hasName (heap t) b n"
    using getMap_loop_first [of "heap t" n "maps_of (user t) m" a] by blast
  note rf = remove_found [OF d(1) d(3) d(2)]
  from rf(1) h show e: "names_of (heap ?t') a = []" by simp
  then have nh: "\<not> hasName (heap ?t') a n" by (simp add: hasName_def)
  show "\<forall>mode. getMap (heap ?t') mode n (user ?t') \<noteq> Some a"
    using nh getMap_loop_holder [of "heap ?t'" n _ a] by (auto simp add: getMap_maps_of)
  show "\<forall>mode. get NORMAL mode n ?t' \<noteq> Some a"
    using nh getMap_loop_holder [of "heap ?t'" n _ a]
    by (auto simp add: get_def getMap_maps_of Let_def split: option.splits)
  from rf(4) h show "a \<in> set (maps_of (user ?t') m')"
    by (simp add: maps_of_def)
qed

theorem shared_object_remove_witness:
  "names_of (heap pair_state) 0 = [''gg''] \<and> getMap (heap pair_state) 2 ''gg'' (user pair_state) = Some 0
   \<and> 0 \<in> set (maps_of (user pair_state) 3) \<and> (3::nat) \<noteq> 2
   \<and> get 1 3 ''gg'' pair_state = Some 0
   \<and> names_of (heap (remove 2 ''gg'' pair_state)) 0 = []
   \<and> get 1 3 ''gg'' (remove 2 ''gg'' pair_state) \<noteq> Some 0
   \<and> 0 \<in> set (maps_of (user (remove 2 ''gg'' pair_state)) 3)
   \<and> allocated (init [2, 3] None :: nat state)
   \<and> (\<exists>s1. addUserMap (\<lambda>k. k) [2, 3] [''gg''] [] (5::nat) None (init [2, 3] None) = Inr s1
         \<and> (\<exists>pre. user s1 2 = Some (pre @ [0])) \<and> (\<exists>pre. user s1 3 = Some (pre @ [0])))"
proof -
  note t = shared_object_remove [of "init [2, 3] None" "\<lambda>k. k" "[2, 3]" "''gg''" "[]" "5::nat" None
      pair_state 0 "''gg''" 2 3 1]
  have p: "names_of (heap pair_state) 0 = [''gg'']"
      "getMap (heap pair_state) 2 ''gg'' (user pair_state) = Some 0"
      "0 \<in> set (maps_of (user pair_state) 3)" "get 1 3 ''gg'' pair_state = Some 0"
    by (simp_all add: pair_names getMap_def get_def pair_user hasName_def maps_of_def)
  have i: "heap (init [2, 3] None :: nat state) = []" by (simp add: init_def)
  from t p allocated_init [of "[2, 3]" None] i show ?thesis
    by auto
qed

subsection \<open>Registering a user mapping over older ones\<close>

















text \<open>
  Claim C2 at the failing input. The first call registers a user mapping with the
  key list \<open>["a", "a"]\<close> for mode 2, the second a user mapping with the key \<open>a\<close>
  for mode 2. The removal loop of the second call splices one \<open>a\<close> out of the
  first object and stops; the first object keeps the other \<open>a\<close>. Afterwards both
  objects are in the user array of mode 2, both have the name \<open>a\<close>, and
  \<open>get(2, "a")\<close> returns the first object, not the newly registered one.
\<close>

theorem addUserMap_keeps_duplicate_name:
  "run dup2_calls (init [1, 2] None) = Inr dup2_state
   \<and> user dup2_state 2 = Some [0, 1]
   \<and> names_of (heap dup2_state) 0 = [''a''] \<and> names_of (heap dup2_state) 1 = [''a'']
   \<and> hasName (heap dup2_state) 0 ''a'' \<and> hasName (heap dup2_state) 1 ''a''
   \<and> get 1 2 ''a'' dup2_state = Some 0"
proof -
  have r: "run dup2_calls (init [1, 2] None) = Inr dup2_state"
    by (simp add: dup2_calls_def dup2_state_def dup_map_def known_tables_def call_defs)
  have n: "names_of (heap dup2_state) 0 = [''a'']" "names_of (heap dup2_state) (Suc 0) = [''a'']"
    by (simp_all add: dup2_state_def names_of_def obj_def dup_map_def Map_new_def)
  have u: "user dup2_state 2 = Some [0, Suc 0]"
    by (simp add: dup2_state_def)
  from r n u show ?thesis
    by (simp add: hasName_def get_def getMap_def)
qed

subsection \<open>The cross-mode view after a registration and a removal\<close>
















lemmas ex_defs = rhs_user_def map_cmd_def known_tables_def call_defs

lemma view_state_reached: "run view_calls (init [2, 3] None) = Inr view_state"
  by (simp add: view_calls_def view_state_def ex_defs eval_nat_numeral)



lemma two_key_reached: "map_cmd [1, 2] [''gg'', ''gG''] ''G'' (init [1, 2] None) = Inr two_key_state"
  by (simp add: two_key_state_def ex_defs)












end
